theory Spec2Isabelle
  imports Main "HOL-Library.Char_ord" "HOL-Library.List_Lexorder" "HOL-Library.AList"
    "HOL-Library.Sublist"
begin

section \<open>Data model of \<^verbatim>\<open>sinc.py\<close>\<close>

text \<open>
  A file state is the dict \<^verbatim>\<open>{'bytesize': size, 'datetime': date_time}\<close> that \<^verbatim>\<open>lsl\<close>
  builds for every listed file; both fields are Python ints.
\<close>

record fstate =
  bytesize :: int
  datetime :: int

text \<open>The exceptions that the modelled code can raise.\<close>

datatype error = KeyError string | IndexError | TypeError | EOFError

text \<open>
  \<^verbatim>\<open>str.lower\<close>. A character of the model is a code point below 256, and on these
  \<^verbatim>\<open>str.lower\<close> changes the 26 letters \<^verbatim>\<open>A\<close> to \<^verbatim>\<open>Z\<close> and the 30 capital letters of the
  range C0 to DE (all of that range but D7, the multiplication sign): each goes to the
  code point 32 above it. Every other code point below 256 stays as it is. Strings with
  code points from 256 on are outside the model.
\<close>

definition upper_chrs :: "char list" where
  "upper_chrs = ''ABCDEFGHIJKLMNOPQRSTUVWXYZ'' @
     [CHR 0xC0, CHR 0xC1, CHR 0xC2, CHR 0xC3, CHR 0xC4, CHR 0xC5, CHR 0xC6, CHR 0xC7,
      CHR 0xC8, CHR 0xC9, CHR 0xCA, CHR 0xCB, CHR 0xCC, CHR 0xCD, CHR 0xCE, CHR 0xCF,
      CHR 0xD0, CHR 0xD1, CHR 0xD2, CHR 0xD3, CHR 0xD4, CHR 0xD5, CHR 0xD6,
      CHR 0xD8, CHR 0xD9, CHR 0xDA, CHR 0xDB, CHR 0xDC, CHR 0xDD, CHR 0xDE]"

definition lower_chrs :: "char list" where
  "lower_chrs = ''abcdefghijklmnopqrstuvwxyz'' @
     [CHR 0xE0, CHR 0xE1, CHR 0xE2, CHR 0xE3, CHR 0xE4, CHR 0xE5, CHR 0xE6, CHR 0xE7,
      CHR 0xE8, CHR 0xE9, CHR 0xEA, CHR 0xEB, CHR 0xEC, CHR 0xED, CHR 0xEE, CHR 0xEF,
      CHR 0xF0, CHR 0xF1, CHR 0xF2, CHR 0xF3, CHR 0xF4, CHR 0xF5, CHR 0xF6,
      CHR 0xF8, CHR 0xF9, CHR 0xFA, CHR 0xFB, CHR 0xFC, CHR 0xFD, CHR 0xFE]"

definition lower_chr :: "char \<Rightarrow> char" where
  "lower_chr c =
     (case map_of (zip upper_chrs lower_chrs) c of
        Some l \<Rightarrow> l
      | None \<Rightarrow> c)"

definition lower :: "string \<Rightarrow> string" where
  "lower s = map lower_chr s"

text \<open>
  Class \<^verbatim>\<open>data\<close>: one side (local or remote) of a folder. The flat dicts \<^verbatim>\<open>d_old\<close> and
  \<^verbatim>\<open>d_tmp\<close> (path to file state) and \<^verbatim>\<open>d_dif\<close> (path to change class 0..3) are maps,
  the \<^verbatim>\<open>s_...\<close> fields are the sets of the class.
\<close>

record data =
  path :: string
  d_old :: "string \<rightharpoonup> fstate"
  d_tmp :: "string \<rightharpoonup> fstate"
  d_dif :: "string \<rightharpoonup> nat"
  s_old :: "string set"
  s_tmp :: "string set"
  s_dif :: "string set"
  s_low :: "string set"

text \<open>\<^verbatim>\<open>data.__init__(self, base, arg)\<close>\<close>

definition data_init :: "string \<Rightarrow> string \<Rightarrow> data" where
  "data_init base arg =
     \<lparr>path = base @ arg @ ''/'',
      d_old = Map.empty, d_tmp = Map.empty, d_dif = Map.empty,
      s_old = {}, s_tmp = {}, s_dif = {}, s_low = {}\<rparr>"

text \<open>
  The body of the loop over \<^verbatim>\<open>inter\<close> in \<^verbatim>\<open>data.build_dif\<close>: the class of a path that is
  in the old and in the current dict.
\<close>

definition inter_class :: "fstate \<Rightarrow> fstate \<Rightarrow> nat" where
  "inter_class old tmp =
     (if bytesize old \<noteq> bytesize tmp then 1
      else if datetime tmp > datetime old then 1
      else 0)"

text \<open>
  \<^verbatim>\<open>data.build_dif\<close>. The three loops run over sets, whose iteration order Python leaves
  open; each loop writes one entry per key of its set, so it is the override of the dict
  on that set. In the last loop both lookups succeed, because \<^verbatim>\<open>inter\<close> is the
  intersection of the two key sets.
\<close>

definition build_dif :: "data \<Rightarrow> data" where
  "build_dif self =
     (let s_old' = dom (d_old self);
          s_tmp' = dom (d_tmp self);
          s_low' = lower ` s_tmp';
          deleted = s_old' - s_tmp';
          created = s_tmp' - s_old';
          inter' = s_tmp' \<inter> s_old';
          dif1 = (\<lambda>key. if key \<in> created then Some 3 else d_dif self key);
          dif2 = (\<lambda>key. if key \<in> deleted then Some 2 else dif1 key);
          dif3 = (\<lambda>key. if key \<in> inter'
                        then (case (d_old self key, d_tmp self key) of
                                (Some old, Some tmp) \<Rightarrow> Some (inter_class old tmp)
                              | _ \<Rightarrow> dif2 key)
                        else dif2 key)
      in self\<lparr>s_old := s_old', s_tmp := s_tmp', s_low := s_low',
              d_dif := dif3, s_dif := dom dif3\<rparr>)"

text \<open>Class \<^verbatim>\<open>direct\<close>: the two sides of one folder (\<^verbatim>\<open>dir_path\<close> is its field \<^verbatim>\<open>path\<close>).\<close>

record direct =
  lcl :: data
  rmt :: data
  dir_path :: string

definition BASE_R :: string where
  "BASE_R = ''onedrive:''"

definition BASE_L :: string where
  "BASE_L = ''/home/conor/''"

definition CASE_INSENSATIVE :: bool where
  "CASE_INSENSATIVE = True"

definition direct_init :: "string \<Rightarrow> direct" where
  "direct_init arg = \<lparr>lcl = data_init BASE_L arg, rmt = data_init BASE_R arg, dir_path = arg\<rparr>"

text \<open>\<^verbatim>\<open>direct.build_dif\<close>\<close>

definition direct_build_dif :: "direct \<Rightarrow> direct" where
  "direct_build_dif f = f\<lparr>lcl := build_dif (lcl f), rmt := build_dif (rmt f)\<rparr>"

section \<open>The reconciler \<^verbatim>\<open>sync\<close>\<close>

text \<open>
  The job functions of the module. \<^verbatim>\<open>cpyR\<close> prints \<^verbatim>\<open>Push\<close> and copies local to remote,
  \<^verbatim>\<open>cpyL\<close> prints \<^verbatim>\<open>Pull\<close> and copies remote to local, \<^verbatim>\<open>delL\<close> deletes its first
  argument (the local path), \<^verbatim>\<open>delR\<close> its second (the remote path), \<^verbatim>\<open>null\<close> does
  nothing.
\<close>

datatype action = Null | CpyL | DelL | Conflict | CpyR | DelR

definition LOGIC :: "action list list" where
  "LOGIC = [[Null, CpyL, DelL, Conflict],
            [CpyR, Conflict, CpyR, Conflict],
            [DelR, CpyL, Null, CpyL],
            [Conflict, Conflict, CpyR, Conflict]]"

text \<open>\<^verbatim>\<open>LOGIC[i][j]\<close>, with the IndexError of an index out of range.\<close>

definition LOGIC_at :: "nat \<Rightarrow> nat \<Rightarrow> error + action" where
  "LOGIC_at i j =
     (if i < length LOGIC
      then (if j < length (LOGIC ! i) then Inr (LOGIC ! i ! j) else Inl IndexError)
      else Inl IndexError)"

text \<open>
  What \<^verbatim>\<open>sync\<close> does, in order: a call of a job function with its two arguments, or the
  report of a case mismatch for a key that is then not pushed or not pulled.
\<close>

datatype event = Call action string string | NotPushing string | NotPulling string

text \<open>
  A \<^verbatim>\<open>for\<close> loop without \<^verbatim>\<open>break\<close>: the events of the keys in order, up to the first
  exception.
\<close>

fun for_each :: "('k \<Rightarrow> error + event list) \<Rightarrow> 'k list \<Rightarrow> event list \<times> error option" where
  "for_each body [] = ([], None)"
| "for_each body (k # ks) =
     (case body k of
        Inl e \<Rightarrow> ([], Some e)
      | Inr es \<Rightarrow> (case for_each body ks of (es', r) \<Rightarrow> (es @ es', r)))"

text \<open>Sequencing: the second part runs only if the first raised nothing.\<close>

definition then_do ::
  "event list \<times> error option \<Rightarrow> event list \<times> error option \<Rightarrow> event list \<times> error option" where
  "then_do a b =
     (case a of
        (es, Some e) \<Rightarrow> (es, Some e)
      | (es, None) \<Rightarrow> (case b of (es', r) \<Rightarrow> (es @ es', r)))"

text \<open>The body of the first loop of \<^verbatim>\<open>sync\<close>, over the keys changed on the local side only.\<close>

definition push_key :: "direct \<Rightarrow> string \<Rightarrow> error + event list" where
  "push_key f key =
     (case d_dif (lcl f) key of
        None \<Rightarrow> Inl (KeyError key)
      | Some c \<Rightarrow>
          if c \<noteq> 2
          then (if CASE_INSENSATIVE \<and> lower key \<in> s_low (rmt f)
                then Inr [NotPushing key]
                else Inr [Call CpyR (path (lcl f) @ key) (path (rmt f) @ key)])
          else Inr [])"

text \<open>The body of the second loop, over the keys changed on the remote side only.\<close>

definition pull_key :: "direct \<Rightarrow> string \<Rightarrow> error + event list" where
  "pull_key f key =
     (case d_dif (rmt f) key of
        None \<Rightarrow> Inl (KeyError key)
      | Some c \<Rightarrow>
          if c \<noteq> 2
          then (if CASE_INSENSATIVE \<and> lower key \<in> s_low (lcl f)
                then Inr [NotPulling key]
                else Inr [Call CpyL (path (lcl f) @ key) (path (rmt f) @ key)])
          else Inr [])"

text \<open>The body of the recovery loop: the current sizes and times of the two sides.\<close>

definition recover_key :: "direct \<Rightarrow> string \<Rightarrow> error + event list" where
  "recover_key f key =
     (case d_tmp (lcl f) key of
        None \<Rightarrow> Inl (KeyError key)
      | Some l \<Rightarrow>
          (case d_tmp (rmt f) key of
             None \<Rightarrow> Inl (KeyError key)
           | Some r \<Rightarrow>
               if bytesize l \<noteq> bytesize r
               then (if datetime l > datetime r
                     then Inr [Call CpyR (path (lcl f) @ key) (path (rmt f) @ key)]
                     else if datetime l < datetime r
                     then Inr [Call CpyL (path (lcl f) @ key) (path (rmt f) @ key)]
                     else Inr [])
               else Inr []))"

text \<open>The body of the loop that calls \<^verbatim>\<open>LOGIC[f.lcl.d_dif[key]][f.rmt.d_dif[key]]\<close>.\<close>

definition logic_key :: "direct \<Rightarrow> string \<Rightarrow> error + event list" where
  "logic_key f key =
     (case d_dif (lcl f) key of
        None \<Rightarrow> Inl (KeyError key)
      | Some i \<Rightarrow>
          if i < length LOGIC
          then (case d_dif (rmt f) key of
                  None \<Rightarrow> Inl (KeyError key)
                | Some j \<Rightarrow>
                    (case LOGIC_at i j of
                       Inl e \<Rightarrow> Inl e
                     | Inr a \<Rightarrow> Inr [Call a (path (lcl f) @ key) (path (rmt f) @ key)]))
          else Inl IndexError)"

text \<open>
  The three parts of \<^verbatim>\<open>sync(f, lcl_dif, rmt_dif, inter)\<close>; \<^verbatim>\<open>sorted\<close> of a set of strings is
  its list in lexicographic order. In the source the \<^verbatim>\<open>else\<close> that holds the \<^verbatim>\<open>LOGIC\<close> loop
  is indented under \<^verbatim>\<open>for key in sorted(inter)\<close> inside \<^verbatim>\<open>if recover:\<close>, so it is the
  \<^verbatim>\<open>else\<close> of that \<^verbatim>\<open>for\<close>: it runs when the recovery loop ends without \<^verbatim>\<open>break\<close>,
  which is always, and nothing runs for \<^verbatim>\<open>inter\<close> when \<^verbatim>\<open>recover\<close> is false.
\<close>

definition sync_lcl :: "direct \<Rightarrow> string set \<Rightarrow> event list \<times> error option" where
  "sync_lcl f lcl_dif = for_each (push_key f) (sorted_list_of_set lcl_dif)"

definition sync_rmt :: "direct \<Rightarrow> string set \<Rightarrow> event list \<times> error option" where
  "sync_rmt f rmt_dif = for_each (pull_key f) (sorted_list_of_set rmt_dif)"

definition sync_inter :: "bool \<Rightarrow> direct \<Rightarrow> string set \<Rightarrow> event list \<times> error option" where
  "sync_inter recover f inter' =
     (if recover
      then then_do (for_each (recover_key f) (sorted_list_of_set inter'))
                   (for_each (logic_key f) (sorted_list_of_set inter'))
      else ([], None))"

definition sync ::
  "bool \<Rightarrow> direct \<Rightarrow> string set \<Rightarrow> string set \<Rightarrow> string set \<Rightarrow> event list \<times> error option" where
  "sync recover f lcl_dif rmt_dif inter' =
     then_do (sync_lcl f lcl_dif) (then_do (sync_rmt f rmt_dif) (sync_inter recover f inter'))"

text \<open>
  The partition of the two diff sets in the main loop: the keys in \<^verbatim>\<open>rmt\<close> only, in
  \<^verbatim>\<open>lcl\<close> only, and in both.
\<close>

definition rmt_dif_of :: "direct \<Rightarrow> string set" where
  "rmt_dif_of f = s_dif (rmt f) - s_dif (lcl f)"

definition lcl_dif_of :: "direct \<Rightarrow> string set" where
  "lcl_dif_of f = s_dif (lcl f) - s_dif (rmt f)"

definition inter_of :: "direct \<Rightarrow> string set" where
  "inter_of f = s_dif (rmt f) \<inter> s_dif (lcl f)"

section \<open>The packed dictionary (the baseline tree)\<close>

text \<open>
  \<^verbatim>\<open>str.split('/')\<close> and \<^verbatim>\<open>'/'.join\<close>. Splitting never returns the empty list: the empty
  string splits into one empty component.
\<close>

fun split :: "char \<Rightarrow> string \<Rightarrow> string list" where
  "split sep [] = [[]]"
| "split sep (c # cs) =
     (if c = sep then [] # split sep cs
      else (case split sep cs of
              [] \<Rightarrow> [[c]]
            | w # ws \<Rightarrow> (c # w) # ws))"

fun join :: "string \<Rightarrow> string list \<Rightarrow> string" where
  "join sep [] = []"
| "join sep [x] = x"
| "join sep (x # y # ys) = x @ sep @ join sep (y # ys)"

text \<open>
  A packed dict \<^verbatim>\<open>{'fold': {...}, 'file': {...}}\<close>. The two inner dicts are association
  lists in insertion order; \<^verbatim>\<open>dict.update\<close> of one key is \<^const>\<open>AList.update\<close>, which
  overwrites the value of a key in place and appends a new key at the end, and a lookup
  is \<^const>\<open>map_of\<close>. A flat dict (path to file state) that is iterated is such a list too.
\<close>

datatype nest = Nest (folds: "(string \<times> nest) list") (files: "(string \<times> fstate) list")

type_synonym flat = "(string \<times> fstate) list"

text \<open>\<^verbatim>\<open>empty()\<close>\<close>

definition empty_nest :: nest where
  "empty_nest = Nest [] []"

text \<open>
  \<^verbatim>\<open>if chain[0] not in nest['fold']: nest['fold'].update({chain[0]: empty()})\<close>, on the
  \<^verbatim>\<open>fold\<close> dict.
\<close>

definition ensure_fold :: "string \<Rightarrow> (string \<times> nest) list \<Rightarrow> (string \<times> nest) list" where
  "ensure_fold k fo = (if map_of fo k = None then AList.update k empty_nest fo else fo)"

text \<open>
  \<^verbatim>\<open>insert(nest, chain)\<close>, where \<^verbatim>\<open>chain\<close> is the list of path components followed by the
  file state: the model takes the components and the state apart. The source changes
  \<^verbatim>\<open>nest\<close> in place, the model returns the changed dict. A chain of the state alone
  reaches \<^verbatim>\<open>chain[0] not in nest['fold']\<close> with a dict as key, a TypeError.
\<close>

fun insert_nest :: "nest \<Rightarrow> string list \<Rightarrow> fstate \<Rightarrow> error + nest" where
  "insert_nest (Nest fo fi) [] v = Inl TypeError"
| "insert_nest (Nest fo fi) [k] v = Inr (Nest fo (AList.update k v fi))"
| "insert_nest (Nest fo fi) (k # k' # ks) v =
     (let fo' = ensure_fold k fo in
      case map_of fo' k of
        None \<Rightarrow> Inl (KeyError k)
      | Some child \<Rightarrow>
          (case insert_nest child (k' # ks) v of
             Inl e \<Rightarrow> Inl e
           | Inr child' \<Rightarrow> Inr (Nest (AList.update k child' fo') fi)))"

text \<open>\<^verbatim>\<open>pack(d)\<close>: the loop over \<^verbatim>\<open>d.items()\<close>, then the function.\<close>

fun pack_items :: "nest \<Rightarrow> flat \<Rightarrow> error + nest" where
  "pack_items nest [] = Inr nest"
| "pack_items nest ((k, v) # kvs) =
     (case insert_nest nest (split CHR ''/'' k) v of
        Inl e \<Rightarrow> Inl e
      | Inr nest' \<Rightarrow> pack_items nest' kvs)"

definition pack :: "flat \<Rightarrow> error + nest" where
  "pack d = pack_items empty_nest d"

text \<open>
  \<^verbatim>\<open>unpack(nest, d, path)\<close>. The source updates \<^verbatim>\<open>d\<close> in place and returns it, so the
  \<^verbatim>\<open>d.update(unpack(v, d, ...))\<close> of the second loop updates \<^verbatim>\<open>d\<close> with itself and changes
  nothing more. The defaults are \<^verbatim>\<open>d={}\<close> and \<^verbatim>\<open>path=''\<close>; the default dict is one object
  for the whole run, so a call that leaves \<^verbatim>\<open>d\<close> out starts from what the earlier such
  calls have put there.
\<close>

fun unpack_files :: "flat \<Rightarrow> flat \<Rightarrow> string \<Rightarrow> flat" where
  "unpack_files [] d path' = d"
| "unpack_files ((k, v) # kvs) d path' = unpack_files kvs (AList.update (path' @ k) v d) path'"

fun unpack :: "nest \<Rightarrow> flat \<Rightarrow> string \<Rightarrow> flat"
  and unpack_folds :: "(string \<times> nest) list \<Rightarrow> flat \<Rightarrow> string \<Rightarrow> flat" where
  "unpack (Nest fo fi) d path' = unpack_folds fo (unpack_files fi d path') path'"
| "unpack_folds [] d path' = d"
| "unpack_folds ((k, v) # kvs) d path' = unpack_folds kvs (unpack v d (path' @ k @ ''/'')) path'"

text \<open>
  A call \<^verbatim>\<open>unpack(nest)\<close> that leaves \<^verbatim>\<open>d\<close> and \<^verbatim>\<open>path\<close> out, as the one of the main loop
  does: it runs on the default dict, whose content is \<open>dflt\<close>, and returns that very
  dict. The result of the call and the content of the default dict after it are the
  same.
\<close>

definition unpack_default :: "nest \<Rightarrow> flat \<Rightarrow> flat \<times> flat" where
  "unpack_default nest dflt = (unpack nest dflt [], unpack nest dflt [])"

text \<open>\<^verbatim>\<open>_get_branch(nest, chain)\<close> and \<^verbatim>\<open>get_branch(nest, path)\<close>\<close>

fun get_branch_chain :: "nest \<Rightarrow> string list \<Rightarrow> error + nest" where
  "get_branch_chain nest [] = Inr nest"
| "get_branch_chain (Nest fo fi) (k # ks) =
     (case map_of fo k of
        None \<Rightarrow> Inl (KeyError k)
      | Some child \<Rightarrow> get_branch_chain child ks)"

definition get_branch :: "nest \<Rightarrow> string \<Rightarrow> error + nest" where
  "get_branch nest path' = get_branch_chain nest (split CHR ''/'' path')"

text \<open>
  \<^verbatim>\<open>_merge(nest, chain, new)\<close> and \<^verbatim>\<open>merge(nest, path, new)\<close>, returning the changed
  dict. On the empty chain the source reads \<^verbatim>\<open>chain[0]\<close>, an IndexError.
\<close>

fun merge_chain :: "nest \<Rightarrow> string list \<Rightarrow> nest \<Rightarrow> error + nest" where
  "merge_chain (Nest fo fi) [] new = Inl IndexError"
| "merge_chain (Nest fo fi) [k] new = Inr (Nest (AList.update k new fo) fi)"
| "merge_chain (Nest fo fi) (k # k' # ks) new =
     (let fo' = ensure_fold k fo in
      case map_of fo' k of
        None \<Rightarrow> Inl (KeyError k)
      | Some child \<Rightarrow>
          (case merge_chain child (k' # ks) new of
             Inl e \<Rightarrow> Inl e
           | Inr child' \<Rightarrow> Inr (Nest (AList.update k child' fo') fi)))"

definition merge :: "nest \<Rightarrow> string \<Rightarrow> nest \<Rightarrow> error + nest" where
  "merge nest path' new = merge_chain nest (split CHR ''/'' path') new"

text \<open>
  \<^verbatim>\<open>_have(nest, chain)\<close> and \<^verbatim>\<open>have(master, path)\<close>; the source returns 1 and 0, the
  model \<open>True\<close> and \<open>False\<close>.
\<close>

fun have_chain :: "nest \<Rightarrow> string list \<Rightarrow> error + bool" where
  "have_chain (Nest fo fi) [] = Inl IndexError"
| "have_chain (Nest fo fi) [k] = Inr (map_of fo k \<noteq> None)"
| "have_chain (Nest fo fi) (k # k' # ks) =
     (case map_of fo k of
        None \<Rightarrow> Inr False
      | Some child \<Rightarrow> have_chain child (k' # ks))"

definition have_path :: "nest \<Rightarrow> string \<Rightarrow> error + bool" where
  "have_path master path' = have_chain master (split CHR ''/'' path')"

text \<open>
  \<^verbatim>\<open>_get_min(nest, chain, min_chain)\<close> and \<^verbatim>\<open>get_min(master, path)\<close>;
  \<^verbatim>\<open>min_chain.append(chain[1])\<close> is the list with one more element.
\<close>

fun get_min_chain :: "nest \<Rightarrow> string list \<Rightarrow> string list \<Rightarrow> error + string list" where
  "get_min_chain (Nest fo fi) [] min_chain = Inl IndexError"
| "get_min_chain (Nest fo fi) [k] min_chain = Inr min_chain"
| "get_min_chain (Nest fo fi) (k # k' # ks) min_chain =
     (case map_of fo k of
        None \<Rightarrow> Inr min_chain
      | Some child \<Rightarrow> get_min_chain child (k' # ks) (min_chain @ [k']))"

definition get_min :: "nest \<Rightarrow> string \<Rightarrow> error + string" where
  "get_min master path' =
     (let chain = split CHR ''/'' path' in
      case chain of
        [] \<Rightarrow> Inl IndexError
      | c # cs \<Rightarrow>
          (case get_min_chain master chain [c] of
             Inl e \<Rightarrow> Inl e
           | Inr min_chain \<Rightarrow> Inr (join ''/'' min_chain)))"

section \<open>The main loop of \<^verbatim>\<open>sinc.py\<close>\<close>

text \<open>
  The branch \<^verbatim>\<open>if first_run: ... else: ...\<close> of the main loop, after the two listings have
  been stored in \<^verbatim>\<open>f.lcl.d_tmp\<close> and \<^verbatim>\<open>f.rmt.d_tmp\<close>. On a first run each side gets its own
  current listing as \<^verbatim>\<open>d_old\<close>; otherwise both sides get a copy of the unpacked branch of
  \<^verbatim>\<open>master\<close>. The call \<^verbatim>\<open>unpack(get_branch(master, f.path))\<close> leaves \<^verbatim>\<open>d\<close> out, so it starts
  from the default dict, here \<open>d0\<close>.
\<close>

definition set_old :: "bool \<Rightarrow> nest \<Rightarrow> flat \<Rightarrow> direct \<Rightarrow> error + direct" where
  "set_old first_run master d0 f =
     (if first_run
      then Inr (f\<lparr>lcl := (lcl f)\<lparr>d_old := d_tmp (lcl f)\<rparr>,
                  rmt := (rmt f)\<lparr>d_old := d_tmp (rmt f)\<rparr>\<rparr>)
      else (case get_branch master (dir_path f) of
              Inl e \<Rightarrow> Inl e
            | Inr branch \<Rightarrow>
                (let old = map_of (unpack branch d0 [])
                 in Inr (f\<lparr>lcl := (lcl f)\<lparr>d_old := old\<rparr>,
                            rmt := (rmt f)\<lparr>d_old := old\<rparr>\<rparr>))))"

text \<open>The same branch followed by \<^verbatim>\<open>f.build_dif()\<close>.\<close>

definition classify :: "bool \<Rightarrow> nest \<Rightarrow> flat \<Rightarrow> direct \<Rightarrow> error + direct" where
  "classify first_run master d0 f =
     (case set_old first_run master d0 f of
        Inl e \<Rightarrow> Inl e
      | Inr f' \<Rightarrow> Inr (direct_build_dif f'))"



text \<open>
  \<^verbatim>\<open>f.lcl.d_tmp = lsl(f.lcl.path)\<close> and \<^verbatim>\<open>f.rmt.d_tmp = lsl(f.rmt.path)\<close>, given the two
  listings that \<^verbatim>\<open>rclone\<close> returns.
\<close>

definition crawl :: "direct \<Rightarrow> (string \<rightharpoonup> fstate) \<Rightarrow> (string \<rightharpoonup> fstate) \<Rightarrow> direct" where
  "crawl f l r = f\<lparr>lcl := (lcl f)\<lparr>d_tmp := l\<rparr>, rmt := (rmt f)\<lparr>d_tmp := r\<rparr>\<rparr>"

text \<open>
  One dry pass of the main loop over a crawled folder: the baselines, \<^verbatim>\<open>f.build_dif()\<close>,
  the partition of the two diff sets and the call of \<^verbatim>\<open>sync\<close>. A first run sets
  \<^verbatim>\<open>recover = True\<close> before it.
\<close>

definition dry_pass ::
  "bool \<Rightarrow> bool \<Rightarrow> nest \<Rightarrow> flat \<Rightarrow> direct \<Rightarrow> error + event list \<times> error option" where
  "dry_pass recover first_run master d0 f =
     (case classify first_run master d0 f of
        Inl e \<Rightarrow> Inl e
      | Inr f' \<Rightarrow>
          Inr (sync (first_run \<or> recover) f' (lcl_dif_of f') (rmt_dif_of f') (inter_of f')))"

text \<open>
  Python's \<^verbatim>\<open>+\<close> on the two kinds of value that the report of the dry pass adds: it is
  defined on two ints and on two strings, and raises TypeError on one of each.
\<close>

datatype pyval = PInt int | PStr string

fun py_add :: "pyval \<Rightarrow> pyval \<Rightarrow> error + pyval" where
  "py_add (PInt a) (PInt b) = Inr (PInt (a + b))"
| "py_add (PStr a) (PStr b) = Inr (PStr (a @ b))"
| "py_add (PInt a) (PStr b) = Inl TypeError"
| "py_add (PStr a) (PInt b) = Inl TypeError"

text \<open>
  The dict \<^verbatim>\<open>strtobool\<close> of \<^verbatim>\<open>sinc.py\<close> on the strings that \<^verbatim>\<open>input\<close> can return (its two
  int keys are never looked up); a string that is no key raises KeyError.
\<close>

definition strtobool_dict :: "(string \<times> bool) list" where
  "strtobool_dict =
     [(''yes'', True), (''ye'', True), (''y'', True), (''n'', False), (''no'', False),
      (''t'', True), (''true'', True), (''f'', False), (''false'', False), (''Y'', True),
      (''N'', False), (''Yes'', True), (''No'', False), ([], True)]"

text \<open>
  What the main loop does after the dry pass, given the value of \<^verbatim>\<open>counter\<close> that the dry
  pass has left and the answer the operator would type:
  \<^verbatim>\<open>total_jobs = counter; counter = 0\<close> and then the \<^verbatim>\<open>if dry_run ... elif ... else\<close>.
\<close>

datatype branch = Found pyval | Nothing_to_Sync | Not_Executed | Live_pass

definition after_dry_pass :: "bool \<Rightarrow> bool \<Rightarrow> string \<Rightarrow> int \<Rightarrow> error + branch" where
  "after_dry_pass dry_run auto answer counter =
     (let total_jobs = counter;
          counter' = (0::int)
      in if dry_run
         then (case py_add (PInt total_jobs) (PStr ''jobs'') of
                 Inl e \<Rightarrow> Inl e
               | Inr v \<Rightarrow> Inr (Found v))
         else if counter' = 0 then Inr Nothing_to_Sync
         else if \<not> auto
         then (case map_of strtobool_dict answer of
                 None \<Rightarrow> Inl (KeyError answer)
               | Some b \<Rightarrow> if \<not> b then Inr Not_Executed else Inr Live_pass)
         else Inr Live_pass)"

section \<open>The decision for the live pass in \<^verbatim>\<open>rsinc/__main__.py\<close>\<close>

definition STB :: "string list" where
  "STB = [''yes'', ''ye'', ''y'', ''1'', ''t'', ''true'', [], ''go'', ''please'',
          ''fire away'', ''punch it'', ''sure'', ''ok'', ''hell yes'']"

definition strtobool :: "string \<Rightarrow> bool" where
  "strtobool string = (lower string \<in> set STB)"

text \<open>
  Whether \<^verbatim>\<open>main\<close> reaches \<^verbatim>\<open>print(grn("Live pass:"))\<close> for a folder: \<open>total'\<close> is \<^verbatim>\<open>total\<close>, what
  the dry call of \<^verbatim>\<open>rsinc.sync\<close> returned, \<open>answer\<close> what the operator types if asked.
  The \<^verbatim>\<open>or\<close> asks only when \<^verbatim>\<open>auto\<close> is false and \<^verbatim>\<open>total\<close> is not 0.
\<close>

definition live_pass :: "bool \<Rightarrow> bool \<Rightarrow> bool \<Rightarrow> int \<Rightarrow> string \<Rightarrow> bool" where
  "live_pass dry_run auto recover total' answer =
     (if \<not> dry_run \<and> (auto \<or> total' = 0 \<or> strtobool answer)
      then (if total' \<noteq> 0 \<or> recover then True else False)
      else False)"

text \<open>
  The console of the operator: the prompts shown so far and the lines the operator is
  going to type. \<^verbatim>\<open>input(prompt)\<close> shows the prompt and returns the next line; with no
  line left it raises EOFError.
\<close>

record console =
  shown :: "string list"
  pending :: "string list"

definition input_console :: "string \<Rightarrow> console \<Rightarrow> error + string \<times> console" where
  "input_console prompt c =
     (case pending c of
        [] \<Rightarrow> Inl EOFError
      | l # ls \<Rightarrow> Inr (l, c\<lparr>shown := shown c @ [prompt], pending := ls\<rparr>))"

text \<open>
  The condition \<^verbatim>\<open>not dry_run and (auto or total == 0 or strtobool(input('Execute? ')))\<close>
  with the console: \<^verbatim>\<open>and\<close> and \<^verbatim>\<open>or\<close> stop at the first operand that decides, so
  \<^verbatim>\<open>input\<close> is called only when the three operands before it have not decided.
\<close>

definition execute_condition :: "bool \<Rightarrow> bool \<Rightarrow> int \<Rightarrow> console \<Rightarrow> error + bool \<times> console" where
  "execute_condition dry_run auto total' c =
     (if \<not> (\<not> dry_run) then Inr (False, c)
      else if auto then Inr (True, c)
      else if total' = 0 then Inr (True, c)
      else (case input_console ''Execute? '' c of
              Inl e \<Rightarrow> Inl e
            | Inr (answer, c') \<Rightarrow> Inr (strtobool answer, c')))"

text \<open>
  The two nested \<^verbatim>\<open>if\<close> of \<^verbatim>\<open>main\<close> with the console: whether the live pass runs, and
  the console afterwards.
\<close>

definition main_live :: "bool \<Rightarrow> bool \<Rightarrow> bool \<Rightarrow> int \<Rightarrow> console \<Rightarrow> error + bool \<times> console" where
  "main_live dry_run auto recover total' c =
     (case execute_condition dry_run auto total' c of
        Inl e \<Rightarrow> Inl e
      | Inr (ok, c') \<Rightarrow>
          Inr ((if ok then (if total' \<noteq> 0 \<or> recover then True else False) else False), c'))"

section \<open>Auxiliary notions for the proofs about the packed dictionary\<close>

text \<open>
  The file state that a packed dict holds under a chain of components: the folders of all
  components but the last, then the file named by the last.
\<close>

fun nlookup :: "nest \<Rightarrow> string list \<Rightarrow> fstate option" where
  "nlookup (Nest fo fi) [] = None"
| "nlookup (Nest fo fi) [k] = map_of fi k"
| "nlookup (Nest fo fi) (k # k' # ks) =
     (case map_of fo k of None \<Rightarrow> None | Some child \<Rightarrow> nlookup child (k' # ks))"

text \<open>
  The packed dicts that \<^verbatim>\<open>pack\<close> builds: in every node the keys of each of the two dicts
  are distinct (they are dicts) and hold no \<^verbatim>\<open>/\<close> (they are components of a split path).
\<close>

fun wf_nest :: "nest \<Rightarrow> bool" and wf_folds :: "(string \<times> nest) list \<Rightarrow> bool" where
  "wf_nest (Nest fo fi) \<longleftrightarrow>
     distinct (map fst fo) \<and> distinct (map fst fi) \<and>
     (\<forall>k \<in> set (map fst fo). CHR ''/'' \<notin> set k) \<and>
     (\<forall>k \<in> set (map fst fi). CHR ''/'' \<notin> set k) \<and> wf_folds fo"
| "wf_folds [] \<longleftrightarrow> True"
| "wf_folds ((k, child) # kvs) \<longleftrightarrow> wf_nest child \<and> wf_folds kvs"

section \<open>Basic facts\<close>

lemma build_dif_d_dif:
  "d_dif (build_dif self) key =
     (case (d_old self key, d_tmp self key) of
        (None, None) \<Rightarrow> d_dif self key
      | (None, Some t) \<Rightarrow> Some 3
      | (Some b, None) \<Rightarrow> Some 2
      | (Some b, Some t) \<Rightarrow> Some (inter_class b t))"
  by (auto simp: build_dif_def Let_def dom_def split: option.splits)

lemma build_dif_s_dif:
  "s_dif (build_dif self) = dom (d_dif self) \<union> dom (d_old self) \<union> dom (d_tmp self)"
  by (auto simp: build_dif_def Let_def dom_def split: option.splits)

lemma build_dif_fields:
  "path (build_dif self) = path self"
  "d_tmp (build_dif self) = d_tmp self"
  "d_old (build_dif self) = d_old self"
  "s_low (build_dif self) = lower ` dom (d_tmp self)"
  by (simp_all add: build_dif_def Let_def)

lemma for_each_events:
  "ev \<in> set (fst (for_each body ks)) \<Longrightarrow> \<exists>k \<in> set ks. \<exists>es. body k = Inr es \<and> ev \<in> set es"
  by (induction ks) (auto split: sum.splits prod.splits)

lemma then_do_events: "set (fst (then_do a b)) \<subseteq> set (fst a) \<union> set (fst b)"
  by (auto simp: then_do_def split: prod.splits option.splits)

lemma push_key_events:
  "push_key f key = Inr es \<Longrightarrow> ev \<in> set es \<Longrightarrow>
     d_dif (lcl f) key \<noteq> Some 2 \<and>
     (ev = NotPushing key \<or> ev = Call CpyR (path (lcl f) @ key) (path (rmt f) @ key))"
  by (auto simp: push_key_def split: option.splits if_splits)

lemma pull_key_events:
  "pull_key f key = Inr es \<Longrightarrow> ev \<in> set es \<Longrightarrow>
     d_dif (rmt f) key \<noteq> Some 2 \<and>
     (ev = NotPulling key \<or> ev = Call CpyL (path (lcl f) @ key) (path (rmt f) @ key))"
  by (auto simp: pull_key_def split: option.splits if_splits)

text \<open>The equations that evaluate one pass on concrete listings.\<close>

lemmas pass_simps =
  dry_pass_def classify_def set_old_def crawl_def direct_init_def data_init_def
  direct_build_dif_def get_branch_def lcl_dif_of_def rmt_dif_of_def inter_of_def
  build_dif_s_dif build_dif_d_dif build_dif_fields inter_class_def
  sync_def sync_lcl_def sync_rmt_def sync_inter_def then_do_def
  push_key_def pull_key_def recover_key_def logic_key_def LOGIC_at_def LOGIC_def
  BASE_L_def BASE_R_def CASE_INSENSATIVE_def lower_def lower_chr_def upper_chrs_def
  lower_chrs_def Let_def

section \<open>The decision table and the \<^verbatim>\<open>both\<close> partition\<close>

text \<open>
  The table \<^verbatim>\<open>LOGIC\<close> is the table of the specification, with \<^verbatim>\<open>null\<close> for NoOp,
  \<^verbatim>\<open>cpyL\<close> for Pull, \<^verbatim>\<open>delL\<close> for DeleteLocal, \<^verbatim>\<open>cpyR\<close> for Push and \<^verbatim>\<open>delR\<close> for
  DeleteRemote: every one of the 16 pairs of classes has one entry.
\<close>

lemma LOGIC_table:
  "map (\<lambda>i. map (LOGIC_at i) [0, 1, 2, 3]) [0, 1, 2, 3] =
     [[Inr Null, Inr CpyL, Inr DelL, Inr Conflict],
      [Inr CpyR, Inr Conflict, Inr CpyR, Inr Conflict],
      [Inr DelR, Inr CpyL, Inr Null, Inr CpyL],
      [Inr Conflict, Inr Conflict, Inr CpyR, Inr Conflict]]"
  by (simp add: LOGIC_at_def LOGIC_def)

text \<open>
  Claim C1. For a path changed on both sides and \<^verbatim>\<open>recover\<close> false, the claim has \<^verbatim>\<open>sync\<close>
  call the entry of the table for the two classes. The table is as claimed
  (\<open>LOGIC_table\<close>), but \<^verbatim>\<open>sync\<close> does not reach it: the loop over the table is the \<^verbatim>\<open>else\<close>
  of the \<^verbatim>\<open>for\<close> of the recovery loop, inside \<^verbatim>\<open>if recover:\<close>. In scenario C of the
  specification (baseline \<^verbatim>\<open>a: (10, 100)\<close>, local \<^verbatim>\<open>a: (20, 150)\<close>, remote unchanged) the
  path \<^verbatim>\<open>a\<close> has local class 1 and remote class 0, it is the only key of \<^verbatim>\<open>inter\<close>, the
  entry of the table is \<^verbatim>\<open>cpyR\<close>, and the pass calls no job function at all.
\<close>

theorem C1_non_recovery_pass_skips_table:
  "d_dif (lcl (projr (classify False
       (Nest [(''x'', Nest [] [(''a'', \<lparr>bytesize = 10, datetime = 100\<rparr>)])] []) []
       (crawl (direct_init ''x'') [''a'' \<mapsto> \<lparr>bytesize = 20, datetime = 150\<rparr>]
                                 [''a'' \<mapsto> \<lparr>bytesize = 10, datetime = 100\<rparr>])))) ''a'' = Some 1 \<and>
   d_dif (rmt (projr (classify False
       (Nest [(''x'', Nest [] [(''a'', \<lparr>bytesize = 10, datetime = 100\<rparr>)])] []) []
       (crawl (direct_init ''x'') [''a'' \<mapsto> \<lparr>bytesize = 20, datetime = 150\<rparr>]
                                 [''a'' \<mapsto> \<lparr>bytesize = 10, datetime = 100\<rparr>])))) ''a'' = Some 0 \<and>
   inter_of (projr (classify False
       (Nest [(''x'', Nest [] [(''a'', \<lparr>bytesize = 10, datetime = 100\<rparr>)])] []) []
       (crawl (direct_init ''x'') [''a'' \<mapsto> \<lparr>bytesize = 20, datetime = 150\<rparr>]
                                 [''a'' \<mapsto> \<lparr>bytesize = 10, datetime = 100\<rparr>]))) = {''a''} \<and>
   LOGIC_at 1 0 = Inr CpyR \<and>
   dry_pass False False
       (Nest [(''x'', Nest [] [(''a'', \<lparr>bytesize = 10, datetime = 100\<rparr>)])] []) []
       (crawl (direct_init ''x'') [''a'' \<mapsto> \<lparr>bytesize = 20, datetime = 150\<rparr>]
                                 [''a'' \<mapsto> \<lparr>bytesize = 10, datetime = 100\<rparr>])
     = Inr ([], None)"
  by (simp add: pass_simps)

text \<open>
  Claim C2. With \<^verbatim>\<open>recover\<close> true the claim has \<^verbatim>\<open>sync\<close> compare the current sizes and
  times only, and do nothing for a path whose two sizes are equal. The recovery loop does
  that, but the \<^verbatim>\<open>else\<close> of its \<^verbatim>\<open>for\<close> then runs the table for every key of \<^verbatim>\<open>inter\<close>.
  With baseline \<^verbatim>\<open>a: (10, 100)\<close>, local \<^verbatim>\<open>a: (10, 150)\<close> and remote \<^verbatim>\<open>a: (10, 100)\<close> the two
  sizes are equal, and the pass still calls \<^verbatim>\<open>cpyR\<close> for \<^verbatim>\<open>a\<close>, the entry of the table for
  the classes 1 and 0.
\<close>

theorem C2_recovery_pass_also_runs_table:
  "recover_key (projr (classify False
       (Nest [(''x'', Nest [] [(''a'', \<lparr>bytesize = 10, datetime = 100\<rparr>)])] []) []
       (crawl (direct_init ''x'') [''a'' \<mapsto> \<lparr>bytesize = 10, datetime = 150\<rparr>]
                                 [''a'' \<mapsto> \<lparr>bytesize = 10, datetime = 100\<rparr>]))) ''a'' = Inr [] \<and>
   dry_pass True False
       (Nest [(''x'', Nest [] [(''a'', \<lparr>bytesize = 10, datetime = 100\<rparr>)])] []) []
       (crawl (direct_init ''x'') [''a'' \<mapsto> \<lparr>bytesize = 10, datetime = 150\<rparr>]
                                 [''a'' \<mapsto> \<lparr>bytesize = 10, datetime = 100\<rparr>])
     = Inr ([Call CpyR ''/home/conor/x/a'' ''onedrive:x/a''], None)"
  by (simp add: pass_simps)

section \<open>The live pass\<close>

text \<open>
  In \<^verbatim>\<open>sinc.py\<close> the test after the dry pass is \<^verbatim>\<open>elif counter == 0\<close>, one line after
  \<^verbatim>\<open>counter = 0\<close>: the branch of the live pass is never reached.
\<close>

lemma after_dry_pass_never_live: "after_dry_pass dry_run auto answer counter \<noteq> Inr Live_pass"
  by (simp add: after_dry_pass_def)

text \<open>
  Claim C3, as amended. In \<^verbatim>\<open>rsinc/__main__.py\<close>, for a pass without the dry-run flag:
  when the dry pass counted no job, no prompt is shown, nothing is read from the
  operator, and the live pass runs exactly when the folder is in recovery mode; when it
  counted jobs, the live pass runs exactly when auto-confirm is set (again without a
  prompt) or the operator, asked once with \<^verbatim>\<open>Execute? \<close>, gives an affirmative
  answer; an operator who gives no answer at all ends the run with EOFError. The pure
  decision \<open>live_pass\<close> is the one \<open>main_live\<close> takes on the answer it would read.
\<close>

theorem C3_live_pass_decision:
  "\<not> dry_run \<Longrightarrow>
     (live_pass dry_run auto recover total' answer \<longleftrightarrow>
        (if total' = 0 then recover else auto \<or> strtobool answer)) \<and>
     (total' = 0 \<longrightarrow> main_live dry_run auto recover total' c = Inr (recover, c)) \<and>
     (total' \<noteq> 0 \<and> auto \<longrightarrow> main_live dry_run auto recover total' c = Inr (True, c)) \<and>
     (total' \<noteq> 0 \<and> \<not> auto \<and> pending c = answer # rest \<longrightarrow>
        main_live dry_run auto recover total' c =
          Inr (strtobool answer, c\<lparr>shown := shown c @ [''Execute? ''], pending := rest\<rparr>)) \<and>
     (total' \<noteq> 0 \<and> \<not> auto \<and> pending c = [] \<longrightarrow>
        main_live dry_run auto recover total' c = Inl EOFError) \<and>
     (pending c = answer # rest \<longrightarrow>
        map_sum id fst (main_live dry_run auto recover total' c) =
          Inr (live_pass dry_run auto recover total' answer))"
  by (auto simp: live_pass_def main_live_def execute_condition_def input_console_def)

theorem C3_live_pass_decision_witness:
  "\<not> False \<and> live_pass False False True 0 ''no'' \<and> \<not> live_pass False True False 0 ''yes'' \<and>
   live_pass False False False 3 ''Yes'' \<and> \<not> live_pass False False True 3 ''no'' \<and>
   main_live False False True 0 \<lparr>shown = [], pending = [''no'']\<rparr>
     = Inr (True, \<lparr>shown = [], pending = [''no'']\<rparr>) \<and>
   main_live False True False 0 \<lparr>shown = [], pending = [''yes'']\<rparr>
     = Inr (False, \<lparr>shown = [], pending = [''yes'']\<rparr>) \<and>
   main_live False True False 3 \<lparr>shown = [], pending = [''no'']\<rparr>
     = Inr (True, \<lparr>shown = [], pending = [''no'']\<rparr>) \<and>
   main_live False False False 3 \<lparr>shown = [], pending = [''Yes'']\<rparr>
     = Inr (True, \<lparr>shown = [''Execute? ''], pending = []\<rparr>) \<and>
   main_live False False True 3 \<lparr>shown = [], pending = [''no'', ''yes'']\<rparr>
     = Inr (False, \<lparr>shown = [''Execute? ''], pending = [''yes'']\<rparr>) \<and>
   main_live False False True 3 \<lparr>shown = [], pending = []\<rparr> = Inl EOFError"
  using C3_live_pass_decision [where dry_run = False and auto = False and recover = True
        and total' = 0 and answer = "''no''" and rest = "[]"
        and c = "\<lparr>shown = [], pending = [''no'']\<rparr>"]
    C3_live_pass_decision [where dry_run = False and auto = True and recover = False
        and total' = 0 and answer = "''yes''" and rest = "[]"
        and c = "\<lparr>shown = [], pending = [''yes'']\<rparr>"]
    C3_live_pass_decision [where dry_run = False and auto = True and recover = False
        and total' = 3 and answer = "''no''" and rest = "[]"
        and c = "\<lparr>shown = [], pending = [''no'']\<rparr>"]
    C3_live_pass_decision [where dry_run = False and auto = False and recover = False
        and total' = 3 and answer = "''Yes''" and rest = "[]"
        and c = "\<lparr>shown = [], pending = [''Yes'']\<rparr>"]
    C3_live_pass_decision [where dry_run = False and auto = False and recover = True
        and total' = 3 and answer = "''no''" and rest = "[''yes'']"
        and c = "\<lparr>shown = [], pending = [''no'', ''yes'']\<rparr>"]
    C3_live_pass_decision [where dry_run = False and auto = False and recover = True
        and total' = 3 and c = "\<lparr>shown = [], pending = []\<rparr>"]
  by (simp add: strtobool_def STB_def lower_def lower_chr_def upper_chrs_def lower_chrs_def)

text \<open>
  The claim as stated fails: with no job counted, no auto-confirm and no recovery, the
  claim's condition holds (zero jobs) and the live pass does not run.
\<close>

theorem C3_zero_jobs_counterexample:
  "\<not> (live_pass False False False 0 ''yes'' \<longleftrightarrow> ((0::int) = 0 \<or> False \<or> strtobool ''yes''))"
  by (simp add: live_pass_def)

section \<open>Baselines and classification\<close>







text \<open>
  Claim C5. For a \<^verbatim>\<open>data\<close> object as \<^verbatim>\<open>__init__\<close> makes it, with baseline \<open>old\<close> (key set O)
  and current listing \<open>tmp\<close> (key set C), \<^verbatim>\<open>build_dif\<close> gives class 2 (Deleted) exactly to
  O - C, class 3 (Created) exactly to C - O, and to a path of both class 1 (Modified) if
  and only if the current size differs from the baseline size or the current time is
  greater than the baseline time, and class 0 (Unchanged) otherwise; the classified paths
  are those of the union of O and C, each with one class.
\<close>

theorem C5_build_dif_classes:
  "let self = build_dif ((data_init base arg)\<lparr>d_old := old, d_tmp := tmp\<rparr>) in
     (d_dif self key = Some 2 \<longleftrightarrow> key \<in> dom old - dom tmp) \<and>
     (d_dif self key = Some 3 \<longleftrightarrow> key \<in> dom tmp - dom old) \<and>
     (\<forall>b c. old key = Some b \<and> tmp key = Some c \<longrightarrow>
        (d_dif self key = Some 1 \<longleftrightarrow> bytesize c \<noteq> bytesize b \<or> datetime c > datetime b) \<and>
        (d_dif self key = Some 0 \<longleftrightarrow> \<not> (bytesize c \<noteq> bytesize b \<or> datetime c > datetime b))) \<and>
     dom (d_dif self) = dom old \<union> dom tmp \<and>
     (key \<in> dom old \<union> dom tmp \<longrightarrow> (\<exists>!c. d_dif self key = Some c \<and> c \<in> {0, 1, 2, 3}))"
  unfolding Let_def
  apply (intro conjI)
  subgoal by (auto simp: build_dif_d_dif data_init_def inter_class_def split: option.splits)
  subgoal by (auto simp: build_dif_d_dif data_init_def inter_class_def split: option.splits)
  subgoal by (auto simp: build_dif_d_dif data_init_def inter_class_def split: option.splits)
  subgoal by (auto simp: build_dif_d_dif data_init_def inter_class_def dom_def split: option.splits)
  subgoal by (auto simp: build_dif_d_dif data_init_def inter_class_def split: option.splits)
  done

theorem C5_build_dif_classes_witness:
  "[''a'' \<mapsto> \<lparr>bytesize = 10, datetime = 100\<rparr>] ''a'' = Some \<lparr>bytesize = 10, datetime = 100\<rparr> \<and>
   [''a'' \<mapsto> \<lparr>bytesize = 10, datetime = 90\<rparr>] ''a'' = Some \<lparr>bytesize = 10, datetime = 90\<rparr> \<and>
   d_dif (build_dif ((data_init BASE_L ''x'')
       \<lparr>d_old := [''a'' \<mapsto> \<lparr>bytesize = 10, datetime = 100\<rparr>],
        d_tmp := [''a'' \<mapsto> \<lparr>bytesize = 10, datetime = 90\<rparr>]\<rparr>)) ''a'' = Some 0 \<and>
   d_dif (build_dif ((data_init BASE_L ''x'')
       \<lparr>d_old := [''a'' \<mapsto> \<lparr>bytesize = 10, datetime = 100\<rparr>],
        d_tmp := [''a'' \<mapsto> \<lparr>bytesize = 10, datetime = 90\<rparr>]\<rparr>)) ''a'' \<noteq> Some 1"
  using C5_build_dif_classes [where base = BASE_L and arg = "''x''"
      and old = "[''a'' \<mapsto> \<lparr>bytesize = 10, datetime = 100\<rparr>]"
      and tmp = "[''a'' \<mapsto> \<lparr>bytesize = 10, datetime = 90\<rparr>]" and key = "''a''"]
  by (simp add: Let_def)

text \<open>
  Claim C6, as amended. The diff set \<^verbatim>\<open>s_dif\<close> of a side is the whole key set of baseline
  and current listing together; it keeps the paths of class 0 (Unchanged): a path with
  the same state in both is in the diff set, with class 0.
\<close>

theorem C6_diff_set_keeps_unchanged:
  "s_dif (build_dif ((data_init base arg)\<lparr>d_old := old, d_tmp := tmp\<rparr>)) = dom old \<union> dom tmp \<and>
   (old key = Some v \<and> tmp key = Some v \<longrightarrow>
      key \<in> s_dif (build_dif ((data_init base arg)\<lparr>d_old := old, d_tmp := tmp\<rparr>)) \<and>
      d_dif (build_dif ((data_init base arg)\<lparr>d_old := old, d_tmp := tmp\<rparr>)) key = Some 0)"
  by (auto simp: build_dif_s_dif build_dif_d_dif data_init_def inter_class_def)

theorem C6_diff_set_keeps_unchanged_witness:
  "[''a'' \<mapsto> \<lparr>bytesize = 10, datetime = 100\<rparr>] ''a'' = Some \<lparr>bytesize = 10, datetime = 100\<rparr> \<and>
   s_dif (build_dif ((data_init BASE_R ''x'')
       \<lparr>d_old := [''a'' \<mapsto> \<lparr>bytesize = 10, datetime = 100\<rparr>],
        d_tmp := [''a'' \<mapsto> \<lparr>bytesize = 10, datetime = 100\<rparr>]\<rparr>)) = {''a''}"
  using C6_diff_set_keeps_unchanged [where base = BASE_R and arg = "''x''"
      and old = "[''a'' \<mapsto> \<lparr>bytesize = 10, datetime = 100\<rparr>]"
      and tmp = "[''a'' \<mapsto> \<lparr>bytesize = 10, datetime = 100\<rparr>]" and key = "''a''"
      and v = "\<lparr>bytesize = 10, datetime = 100\<rparr>"]
  by simp

text \<open>
  The claim as stated fails: a path that is unchanged on the local side is in the local
  diff set, with class 0.
\<close>

theorem C6_unchanged_in_diff_set_counterexample:
  "''a'' \<in> s_dif (build_dif ((data_init BASE_L ''x'')
       \<lparr>d_old := [''a'' \<mapsto> \<lparr>bytesize = 10, datetime = 100\<rparr>],
        d_tmp := [''a'' \<mapsto> \<lparr>bytesize = 10, datetime = 100\<rparr>]\<rparr>)) \<and>
   d_dif (build_dif ((data_init BASE_L ''x'')
       \<lparr>d_old := [''a'' \<mapsto> \<lparr>bytesize = 10, datetime = 100\<rparr>],
        d_tmp := [''a'' \<mapsto> \<lparr>bytesize = 10, datetime = 100\<rparr>]\<rparr>)) ''a'' = Some 0"
  by (simp add: build_dif_s_dif build_dif_d_dif data_init_def inter_class_def)

section \<open>One-sided changes\<close>

text \<open>
  Claim C7. The first loop of \<^verbatim>\<open>sync\<close> (paths in the local diff set only) does nothing
  but report a case mismatch or call \<^verbatim>\<open>cpyR\<close>, and only for a path whose class is not 2;
  the second loop (remote only) does the same with \<^verbatim>\<open>cpyL\<close>. A path of class 2
  (Deleted) gets no event in either loop. So every call of \<^verbatim>\<open>delL\<close> or \<^verbatim>\<open>delR\<close> that
  \<^verbatim>\<open>sync\<close> makes is made by its part for the paths changed on both sides.
\<close>

theorem C7_no_delete_outside_inter:
  "(\<forall>ev \<in> set (fst (sync_lcl f lcl_dif)). \<exists>key.
       d_dif (lcl f) key \<noteq> Some 2 \<and>
       (ev = NotPushing key \<or> ev = Call CpyR (path (lcl f) @ key) (path (rmt f) @ key))) \<and>
   (\<forall>ev \<in> set (fst (sync_rmt f rmt_dif)). \<exists>key.
       d_dif (rmt f) key \<noteq> Some 2 \<and>
       (ev = NotPulling key \<or> ev = Call CpyL (path (lcl f) @ key) (path (rmt f) @ key))) \<and>
   (d_dif (lcl f) k = Some 2 \<longrightarrow> push_key f k = Inr []) \<and>
   (d_dif (rmt f) k = Some 2 \<longrightarrow> pull_key f k = Inr []) \<and>
   (\<forall>a l r. a \<in> {DelL, DelR} \<and>
        Call a l r \<in> set (fst (sync recover f lcl_dif rmt_dif inter')) \<longrightarrow>
        Call a l r \<in> set (fst (sync_inter recover f inter')))"
proof (intro conjI)
  show "\<forall>ev \<in> set (fst (sync_lcl f lcl_dif)). \<exists>key.
       d_dif (lcl f) key \<noteq> Some 2 \<and>
       (ev = NotPushing key \<or> ev = Call CpyR (path (lcl f) @ key) (path (rmt f) @ key))"
    unfolding sync_lcl_def by (meson for_each_events push_key_events)
  show "\<forall>ev \<in> set (fst (sync_rmt f rmt_dif)). \<exists>key.
       d_dif (rmt f) key \<noteq> Some 2 \<and>
       (ev = NotPulling key \<or> ev = Call CpyL (path (lcl f) @ key) (path (rmt f) @ key))"
    unfolding sync_rmt_def by (meson for_each_events pull_key_events)
  show "d_dif (lcl f) k = Some 2 \<longrightarrow> push_key f k = Inr []"
    by (simp add: push_key_def)
  show "d_dif (rmt f) k = Some 2 \<longrightarrow> pull_key f k = Inr []"
    by (simp add: pull_key_def)
  show "\<forall>a l r. a \<in> {DelL, DelR} \<and>
        Call a l r \<in> set (fst (sync recover f lcl_dif rmt_dif inter')) \<longrightarrow>
        Call a l r \<in> set (fst (sync_inter recover f inter'))"
  proof (intro allI impI)
    fix a l r
    assume h: "a \<in> {DelL, DelR} \<and>
      Call a l r \<in> set (fst (sync recover f lcl_dif rmt_dif inter'))"
    have nl: "Call a l r \<notin> set (fst (sync_lcl f lcl_dif))"
      using h unfolding sync_lcl_def by (auto dest!: for_each_events dest: push_key_events)
    have nr: "Call a l r \<notin> set (fst (sync_rmt f rmt_dif))"
      using h unfolding sync_rmt_def by (auto dest!: for_each_events dest: pull_key_events)
    from h have "Call a l r \<in> set (fst (sync_lcl f lcl_dif)) \<union>
        (set (fst (sync_rmt f rmt_dif)) \<union> set (fst (sync_inter recover f inter')))"
      unfolding sync_def using then_do_events by blast
    with nl nr show "Call a l r \<in> set (fst (sync_inter recover f inter'))" by blast
  qed
qed

theorem C7_no_delete_outside_inter_witness:
  "d_dif (lcl \<lparr>lcl = (data_init BASE_L ''x'')
              \<lparr>d_tmp := [''b'' \<mapsto> \<lparr>bytesize = 1, datetime = 5\<rparr>], d_dif := [''a'' \<mapsto> 2, ''b'' \<mapsto> 2]\<rparr>,
            rmt = (data_init BASE_R ''x'')
              \<lparr>d_tmp := [''b'' \<mapsto> \<lparr>bytesize = 1, datetime = 5\<rparr>], d_dif := [''b'' \<mapsto> 0]\<rparr>,
            dir_path = ''x''\<rparr>) ''a'' = Some 2 \<and>
   sync_lcl \<lparr>lcl = (data_init BASE_L ''x'')
              \<lparr>d_tmp := [''b'' \<mapsto> \<lparr>bytesize = 1, datetime = 5\<rparr>], d_dif := [''a'' \<mapsto> 2, ''b'' \<mapsto> 2]\<rparr>,
            rmt = (data_init BASE_R ''x'')
              \<lparr>d_tmp := [''b'' \<mapsto> \<lparr>bytesize = 1, datetime = 5\<rparr>], d_dif := [''b'' \<mapsto> 0]\<rparr>,
            dir_path = ''x''\<rparr> {''a''} = ([], None) \<and>
   Call DelR ''/home/conor/x/b'' ''onedrive:x/b'' \<in> set (fst (sync True
          \<lparr>lcl = (data_init BASE_L ''x'')
              \<lparr>d_tmp := [''b'' \<mapsto> \<lparr>bytesize = 1, datetime = 5\<rparr>], d_dif := [''a'' \<mapsto> 2, ''b'' \<mapsto> 2]\<rparr>,
            rmt = (data_init BASE_R ''x'')
              \<lparr>d_tmp := [''b'' \<mapsto> \<lparr>bytesize = 1, datetime = 5\<rparr>], d_dif := [''b'' \<mapsto> 0]\<rparr>,
            dir_path = ''x''\<rparr> {''a''} {} {''b''})) \<and>
   Call DelR ''/home/conor/x/b'' ''onedrive:x/b'' \<in> set (fst (sync_inter True
          \<lparr>lcl = (data_init BASE_L ''x'')
              \<lparr>d_tmp := [''b'' \<mapsto> \<lparr>bytesize = 1, datetime = 5\<rparr>], d_dif := [''a'' \<mapsto> 2, ''b'' \<mapsto> 2]\<rparr>,
            rmt = (data_init BASE_R ''x'')
              \<lparr>d_tmp := [''b'' \<mapsto> \<lparr>bytesize = 1, datetime = 5\<rparr>], d_dif := [''b'' \<mapsto> 0]\<rparr>,
            dir_path = ''x''\<rparr> {''b''}))"
  using C7_no_delete_outside_inter [where k = "''a''" and recover = True
      and lcl_dif = "{''a''}" and rmt_dif = "{}" and inter' = "{''b''}"
      and f = "\<lparr>lcl = (data_init BASE_L ''x'')
              \<lparr>d_tmp := [''b'' \<mapsto> \<lparr>bytesize = 1, datetime = 5\<rparr>], d_dif := [''a'' \<mapsto> 2, ''b'' \<mapsto> 2]\<rparr>,
            rmt = (data_init BASE_R ''x'')
              \<lparr>d_tmp := [''b'' \<mapsto> \<lparr>bytesize = 1, datetime = 5\<rparr>], d_dif := [''b'' \<mapsto> 0]\<rparr>,
            dir_path = ''x''\<rparr>"]
  by (simp add: pass_simps)

section \<open>The report of a dry run\<close>

text \<open>
  Claim C10. In \<^verbatim>\<open>sinc.py\<close>, a run with the dry-run flag reaches
  \<^verbatim>\<open>print('Found:', total_jobs + 'jobs')\<close> after its dry pass, whatever the number of jobs
  counted; the sum of the int \<^verbatim>\<open>total_jobs\<close> and a string raises TypeError.
\<close>

theorem C10_dry_run_report_raises:
  "dry_run \<Longrightarrow> after_dry_pass dry_run auto answer counter = Inl TypeError"
  by (simp add: after_dry_pass_def)

theorem C10_dry_run_report_raises_witness:
  "True \<and> after_dry_pass True False ''y'' 0 = Inl TypeError \<and>
   after_dry_pass True True [] 7 = Inl TypeError"
  using C10_dry_run_report_raises [where dry_run = True and auto = False and answer = "''y''"
      and counter = 0]
    C10_dry_run_report_raises [where dry_run = True and auto = True and answer = "[]"
      and counter = 7]
  by simp

section \<open>Paths and chains\<close>

lemma split_not_Nil [simp]: "split sep s \<noteq> []"
  by (induction s) (auto split: list.splits)

lemma split_no_sep: "c \<in> set (split sep s) \<Longrightarrow> sep \<notin> set c"
  by (induction s arbitrary: c) (auto split: list.splits if_splits)

lemma join_split: "join [sep] (split sep s) = s"
proof (induction s)
  case Nil
  then show ?case by simp
next
  case (Cons c s)
  obtain w ws where ws: "split sep s = w # ws"
    by (cases "split sep s") auto
  show ?case
  proof (cases "c = sep")
    case True
    with Cons ws show ?thesis by simp
  next
    case False
    with Cons ws show ?thesis by (cases ws) auto
  qed
qed

lemma split_append_sep: "sep \<notin> set k \<Longrightarrow> split sep (k @ sep # s) = k # split sep s"
  by (induction k) (auto split: list.splits)

lemma split_no_sep_id: "sep \<notin> set k \<Longrightarrow> split sep k = [k]"
  by (induction k) (auto split: list.splits)

lemma split_join:
  "cs \<noteq> [] \<Longrightarrow> \<forall>c \<in> set cs. sep \<notin> set c \<Longrightarrow> split sep (join [sep] cs) = cs"
proof (induction cs)
  case Nil
  then show ?case by simp
next
  case (Cons x xs)
  show ?case
  proof (cases xs)
    case Nil
    with Cons.prems show ?thesis by (simp add: split_no_sep_id)
  next
    case (Cons y ys)
    with Cons.IH Cons.prems show ?thesis by (simp add: split_append_sep)
  qed
qed

lemma split_inj: "split sep s = split sep t \<Longrightarrow> s = t"
  by (metis join_split)

section \<open>The minimal path\<close>

text \<open>
  \<^verbatim>\<open>_get_min\<close> starts from the first component and adds the next component each time the
  current one is a folder of the current node: its result is the start followed by a
  prefix \<open>p\<close> of the rest of the chain, the chain up to the length of \<open>p\<close> is a chain of
  folders, and unless \<open>p\<close> is the whole rest, the chain one component longer is none.
\<close>

lemma get_min_chain_result:
  "\<exists>p. get_min_chain n (c # cs) mc = Inr (mc @ p) \<and> prefix p cs \<and>
       (\<exists>b. get_branch_chain n (take (length p) (c # cs)) = Inr b) \<and>
       (p \<noteq> cs \<longrightarrow> have_chain n (c # p) = Inr False)"
proof (induction cs arbitrary: n c mc)
  case Nil
  show ?case by (cases n) simp
next
  case (Cons c' cs')
  obtain fo fi where n: "n = Nest fo fi" by (cases n)
  show ?case
  proof (cases "map_of fo c")
    case None
    then show ?thesis using n by (intro exI[of _ "[]"]) simp
  next
    case (Some child)
    from Cons[of child c' "mc @ [c']"] obtain p where
      p: "get_min_chain child (c' # cs') (mc @ [c']) = Inr ((mc @ [c']) @ p)" "prefix p cs'"
         "\<exists>b. get_branch_chain child (take (length p) (c' # cs')) = Inr b"
         "p \<noteq> cs' \<longrightarrow> have_chain child (c' # p) = Inr False" by blast
    show ?thesis using n Some p by (intro exI[of _ "c' # p"]) simp
  qed
qed

text \<open>
  What \<^verbatim>\<open>get_min(master, path)\<close> returns: the join of a non-empty prefix \<open>r\<close> of the
  components of \<^verbatim>\<open>path\<close>; all components of \<open>r\<close> but the last are a chain of folders of
  \<^verbatim>\<open>master\<close> from the root, and when \<open>r\<close> is not the whole path, \<open>r\<close> itself is not:
  the result is one component longer than the chain of folders that is present (or the
  whole path).
\<close>

lemma get_min_one_past_present:
  "\<exists>r. get_min master p = Inr (join ''/'' r) \<and> split CHR ''/'' (join ''/'' r) = r \<and>
       r \<noteq> [] \<and> prefix r (split CHR ''/'' p) \<and>
       (\<exists>b. get_branch_chain master (butlast r) = Inr b) \<and>
       (r \<noteq> split CHR ''/'' p \<longrightarrow> have_chain master r = Inr False)"
proof -
  obtain c cs where ch: "split CHR ''/'' p = c # cs"
    by (cases "split CHR ''/'' p") auto
  from get_min_chain_result[of master c cs "[c]"] obtain q where
    q: "get_min_chain master (c # cs) [c] = Inr ([c] @ q)" "prefix q cs"
       "\<exists>b. get_branch_chain master (take (length q) (c # cs)) = Inr b"
       "q \<noteq> cs \<longrightarrow> have_chain master (c # q) = Inr False" by blast
  let ?r = "c # q"
  have pre: "prefix ?r (split CHR ''/'' p)" using q(2) ch by simp
  have "\<forall>x \<in> set ?r. CHR ''/'' \<notin> set x"
    using pre split_no_sep[of _ "CHR ''/''" p] by (metis set_mono_prefix subsetD)
  then have sj: "split CHR ''/'' (join ''/'' ?r) = ?r"
    using split_join[of ?r "CHR ''/''"] by simp
  have bl: "butlast ?r = take (length q) (c # cs)"
  proof -
    have "butlast ?r = take (length q) ?r" by (simp add: butlast_conv_take)
    also have "\<dots> = take (length q) (?r @ drop (length q) cs)" by (subst take_append) simp
    also have "?r @ drop (length q) cs = c # cs" using q(2) by (auto simp: prefix_def)
    finally show ?thesis .
  qed
  show ?thesis
    using ch q pre sj bl by (intro exI[of _ ?r]) (simp add: get_min_def)
qed

text \<open>
  Claim C9. The claim has \<^verbatim>\<open>get_min\<close> return no more than the chain of folders that
  is present in the tree, as the docstring of \<^verbatim>\<open>_get_min\<close> says (the subset of the chain
  contained in the packed dict). The code returns one component more: in the empty
  tree no folder is present, and the result for the path \<^verbatim>\<open>a/b\<close> is \<^verbatim>\<open>a\<close>, which
  \<^verbatim>\<open>have\<close> does not find and \<^verbatim>\<open>get_branch\<close> cannot read.
\<close>

theorem C9_get_min_returns_absent_prefix:
  "get_min empty_nest ''a/b'' = Inr ''a'' \<and> have_path empty_nest ''a'' = Inr False \<and>
   get_branch empty_nest ''a'' = Inl (KeyError ''a'')"
  by (simp add: get_min_def empty_nest_def have_path_def get_branch_def)

section \<open>The round trip through the packed dictionary\<close>

lemma wf_folds_iff: "wf_folds fo \<longleftrightarrow> (\<forall>(k, c) \<in> set fo. wf_nest c)"
  by (induction fo) auto

lemma wf_folds_map_of: "wf_folds fo \<Longrightarrow> map_of fo k = Some c \<Longrightarrow> wf_nest c"
  by (auto simp: wf_folds_iff dest: map_of_SomeD)

lemma set_update_subset: "set (AList.update k v al) \<subseteq> insert (k, v) (set al)"
  by (induction al) auto

lemma wf_folds_update: "wf_folds fo \<Longrightarrow> wf_nest c \<Longrightarrow> wf_folds (AList.update k c fo)"
  using set_update_subset[of k c fo] by (auto simp: wf_folds_iff)

lemma wf_empty_nest [simp]: "wf_nest empty_nest"
  by (simp add: empty_nest_def)

lemma nlookup_empty [simp]: "nlookup empty_nest cs = None"
proof (cases cs)
  case Nil
  then show ?thesis by (simp add: empty_nest_def)
next
  case (Cons a as)
  then show ?thesis by (cases as) (simp_all add: empty_nest_def)
qed

lemma map_of_ensure_fold: "\<exists>c. map_of (ensure_fold k fo) k = Some c"
  by (cases "map_of fo k") (simp_all add: ensure_fold_def update_conv')

lemma map_of_ensure_fold_other: "x \<noteq> k \<Longrightarrow> map_of (ensure_fold k fo) x = map_of fo x"
  by (simp add: ensure_fold_def update_conv')

lemma map_of_ensure_fold_same:
  "map_of (ensure_fold k fo) k = (case map_of fo k of None \<Rightarrow> Some empty_nest | Some c \<Rightarrow> Some c)"
  by (simp add: ensure_fold_def update_conv' split: option.splits)

lemma ensure_fold_keys: "fst ` set (ensure_fold k fo) = insert k (fst ` set fo)"
proof (cases "map_of fo k")
  case None
  then show ?thesis by (simp add: ensure_fold_def dom_update)
next
  case (Some c)
  then have "k \<in> fst ` set fo" by (metis map_of_eq_None_iff option.distinct(1))
  with Some show ?thesis by (auto simp: ensure_fold_def)
qed

lemma ensure_fold_distinct: "distinct (map fst fo) \<Longrightarrow> distinct (map fst (ensure_fold k fo))"
  by (simp add: ensure_fold_def distinct_update)

lemma wf_folds_ensure: "wf_folds fo \<Longrightarrow> wf_folds (ensure_fold k fo)"
  by (simp add: ensure_fold_def wf_folds_update)

lemma insert_nest_ok:
  "cs \<noteq> [] \<Longrightarrow> \<exists>n'. insert_nest n cs v = Inr n' \<and>
     (\<forall>cs'. nlookup n' cs' = (if cs' = cs then Some v else nlookup n cs')) \<and>
     (wf_nest n \<and> (\<forall>c \<in> set cs. CHR ''/'' \<notin> set c) \<longrightarrow> wf_nest n')"
proof (induction n cs v rule: insert_nest.induct)
  case (1 fo fi v)
  then show ?case by simp
next
  case (2 fo fi k v)
  have "nlookup (Nest fo (AList.update k v fi)) cs' = (if cs' = [k] then Some v else nlookup (Nest fo fi) cs')" for cs'
  proof (cases cs')
    case Nil
    then show ?thesis by simp
  next
    case (Cons a as)
    then show ?thesis by (cases as) (auto simp: update_conv')
  qed
  then show ?case by (auto simp: distinct_update dom_update)
next
  case (3 fo fi k k' ks v)
  let ?fo = "ensure_fold k fo"
  obtain child where c: "map_of ?fo k = Some child"
    using map_of_ensure_fold by blast
  from 3(1)[OF refl c] obtain child' where
    i: "insert_nest child (k' # ks) v = Inr child'"
    and l: "\<And>cs'. nlookup child' cs' = (if cs' = k' # ks then Some v else nlookup child cs')"
    and w: "wf_nest child \<and> (\<forall>c \<in> set (k' # ks). CHR ''/'' \<notin> set c) \<longrightarrow> wf_nest child'"
    by auto
  let ?n' = "Nest (AList.update k child' ?fo) fi"
  have r: "insert_nest (Nest fo fi) (k # k' # ks) v = Inr ?n'"
    using c i by simp
  have lk: "nlookup ?n' cs' = (if cs' = k # k' # ks then Some v else nlookup (Nest fo fi) cs')" for cs'
  proof (cases cs')
    case Nil
    then show ?thesis by simp
  next
    case (Cons a as)
    show ?thesis
    proof (cases as)
      case Nil
      with Cons show ?thesis by simp
    next
      case (Cons b bs)
      show ?thesis
      proof (cases "a = k")
        case True
        have "nlookup child (b # bs) = (case map_of fo k of None \<Rightarrow> None | Some c \<Rightarrow> nlookup c (b # bs))"
          using c by (auto simp: map_of_ensure_fold_same split: option.splits)
        with True Cons \<open>cs' = a # as\<close> l show ?thesis by (simp add: update_conv')
      next
        case False
        with Cons \<open>cs' = a # as\<close> show ?thesis
          by (simp add: update_conv' map_of_ensure_fold_other)
      qed
    qed
  qed
  have wf: "wf_nest ?n'" if h: "wf_nest (Nest fo fi)" "\<forall>c \<in> set (k # k' # ks). CHR ''/'' \<notin> set c"
  proof -
    have "wf_folds ?fo" using h(1) by (simp add: wf_folds_ensure)
    then have "wf_nest child" using c by (rule wf_folds_map_of)
    with w h(2) have "wf_nest child'" by simp
    with \<open>wf_folds ?fo\<close> have "wf_folds (AList.update k child' ?fo)" by (rule wf_folds_update)
    moreover have "fst ` set (AList.update k child' ?fo) = insert k (fst ` set fo)"
      using ensure_fold_keys[of k fo] by (simp add: dom_update)
    ultimately show ?thesis using h
      by (simp add: distinct_update ensure_fold_distinct)
  qed
  show ?case using r lk wf by blast
qed


lemma pack_items_ok:
  "distinct (map fst kvs) \<Longrightarrow> \<exists>n'. pack_items n kvs = Inr n' \<and>
     (\<forall>key. nlookup n' (split CHR ''/'' key) =
        (case map_of kvs key of Some v \<Rightarrow> Some v | None \<Rightarrow> nlookup n (split CHR ''/'' key))) \<and>
     (wf_nest n \<longrightarrow> wf_nest n')"
proof (induction kvs arbitrary: n)
  case Nil
  then show ?case by simp
next
  case (Cons kv kvs)
  obtain k v where kv: "kv = (k, v)" by (cases kv)
  from insert_nest_ok[of "split CHR ''/'' k" n v] obtain n1 where
    n1: "insert_nest n (split CHR ''/'' k) v = Inr n1"
    and l1: "\<And>cs'. nlookup n1 cs' = (if cs' = split CHR ''/'' k then Some v else nlookup n cs')"
    and w1: "wf_nest n \<longrightarrow> wf_nest n1"
    using split_no_sep[of _ "CHR ''/''" k] by auto
  from Cons.prems have d: "distinct (map fst kvs)" and nk: "map_of kvs k = None"
    using kv by (auto simp: map_of_eq_None_iff)
  from Cons.IH[OF d, of n1] obtain n' where
    n': "pack_items n1 kvs = Inr n'"
    and l': "\<And>key. nlookup n' (split CHR ''/'' key) =
        (case map_of kvs key of Some v \<Rightarrow> Some v | None \<Rightarrow> nlookup n1 (split CHR ''/'' key))"
    and w': "wf_nest n1 \<longrightarrow> wf_nest n'" by auto
  have "nlookup n' (split CHR ''/'' key) =
        (case map_of (kv # kvs) key of Some v \<Rightarrow> Some v | None \<Rightarrow> nlookup n (split CHR ''/'' key))" for key
    using l'[of key] l1[of "split CHR ''/'' key"] nk kv
    by (auto dest: split_inj split: option.splits)
  then show ?case using n1 n' w1 w' kv by simp
qed

lemma unpack_files_frame:
  "\<not> prefix p key \<Longrightarrow> map_of (unpack_files fi d p) key = map_of d key"
  by (induction fi d p rule: unpack_files.induct) (auto simp: update_conv')

lemma unpack_frame:
  "\<not> prefix p key \<Longrightarrow> map_of (unpack n d p) key = map_of d key"
  "\<not> prefix p key \<Longrightarrow> map_of (unpack_folds fo d p) key = map_of d key"
proof (induction n d p and fo d p rule: unpack_unpack_folds.induct)
  case (1 fo fi d p)
  then show ?case by (simp add: unpack_files_frame)
next
  case (2 d p)
  then show ?case by simp
next
  case (3 k v kvs d p)
  from 3(3) have "\<not> prefix (p @ k @ ''/'') key"
    using append_prefixD by blast
  with 3 show ?case by simp
qed

lemma unpack_files_lookup:
  "distinct (map fst fi) \<Longrightarrow>
     map_of (unpack_files fi d p) (p @ rest) =
       (case map_of fi rest of Some v \<Rightarrow> Some v | None \<Rightarrow> map_of d (p @ rest))"
proof (induction fi d p rule: unpack_files.induct)
  case (1 d p)
  then show ?case by simp
next
  case (2 k v kvs d p)
  then have "map_of kvs k = None" by (auto simp: map_of_eq_None_iff)
  with 2 show ?case by (auto simp: update_conv' split: option.splits)
qed

lemma split_two_prefix:
  assumes "split sep rest = k # y # zs"
  shows "rest = k @ sep # join [sep] (y # zs)" and "split sep (join [sep] (y # zs)) = y # zs"
proof -
  have "rest = join [sep] (k # y # zs)" using assms join_split[of sep rest] by simp
  then show "rest = k @ sep # join [sep] (y # zs)" by simp
  have "\<forall>c \<in> set (y # zs). sep \<notin> set c"
    using split_no_sep[of _ sep rest] assms by auto
  then show "split sep (join [sep] (y # zs)) = y # zs"
    by (intro split_join) auto
qed

lemma prefix_sep_split:
  assumes "sep \<notin> set k" "prefix (k @ [sep]) rest"
  shows "\<exists>y zs. split sep rest = k # y # zs"
proof -
  from assms(2) obtain r where "rest = k @ sep # r" by (auto simp: prefix_def)
  then have "split sep rest = k # split sep r" using assms(1) by (simp add: split_append_sep)
  then show ?thesis by (cases "split sep r") auto
qed


lemma nlookup_no_files:
  "nlookup (Nest fo fi) cs =
     (case nlookup (Nest fo []) cs of
        Some v \<Rightarrow> Some v
      | None \<Rightarrow> (case cs of [k] \<Rightarrow> map_of fi k | _ \<Rightarrow> None))"
proof (cases cs)
  case Nil
  then show ?thesis by simp
next
  case (Cons a as)
  then show ?thesis by (cases as) (auto split: option.splits)
qed

lemma nlookup_folds_Cons:
  "nlookup (Nest ((k, v) # kvs) []) cs =
     (case cs of
        a # b # bs \<Rightarrow> if a = k then nlookup v (b # bs) else nlookup (Nest kvs []) cs
      | _ \<Rightarrow> None)"
proof (cases cs)
  case Nil
  then show ?thesis by simp
next
  case (Cons a as)
  then show ?thesis by (cases as) auto
qed

lemma unpack_lookup:
  "wf_nest n \<Longrightarrow>
     map_of (unpack n d p) (p @ rest) =
       (case nlookup n (split CHR ''/'' rest) of
          Some v \<Rightarrow> Some v
        | None \<Rightarrow> map_of d (p @ rest))"
  "wf_folds fo \<Longrightarrow> distinct (map fst fo) \<Longrightarrow> \<forall>k \<in> fst ` set fo. CHR ''/'' \<notin> set k \<Longrightarrow>
     map_of (unpack_folds fo d p) (p @ rest) =
       (case nlookup (Nest fo []) (split CHR ''/'' rest) of
          Some v \<Rightarrow> Some v
        | None \<Rightarrow> map_of d (p @ rest))"
proof (induction n d p and fo d p arbitrary: rest and rest rule: unpack_unpack_folds.induct)
  case (1 fo fi d p)
  let ?cs = "split CHR ''/'' rest"
  from 1(2) have wf: "wf_folds fo" "distinct (map fst fo)" "\<forall>k \<in> fst ` set fo. CHR ''/'' \<notin> set k"
    and dfi: "distinct (map fst fi)" and sfi: "\<forall>k \<in> fst ` set fi. CHR ''/'' \<notin> set k"
    by auto
  have folds: "map_of (unpack (Nest fo fi) d p) (p @ rest) =
      (case nlookup (Nest fo []) ?cs of
         Some v \<Rightarrow> Some v
       | None \<Rightarrow> map_of (unpack_files fi d p) (p @ rest))"
    using 1(1)[OF wf] by simp
  have files: "map_of (unpack_files fi d p) (p @ rest) =
      (case (case ?cs of [k] \<Rightarrow> map_of fi k | _ \<Rightarrow> None) of
         Some v \<Rightarrow> Some v
       | None \<Rightarrow> map_of d (p @ rest))"
  proof (cases "CHR ''/'' \<in> set rest")
    case True
    then have "map_of fi rest = None" using sfi by (auto simp: map_of_eq_None_iff)
    moreover have "\<not> (\<exists>k. ?cs = [k])"
      using True join_split[of "CHR ''/''" rest] split_no_sep[of _ "CHR ''/''" rest] by auto
    then have "(case ?cs of [k] \<Rightarrow> map_of fi k | _ \<Rightarrow> None) = None"
      by (auto split: list.splits)
    ultimately show ?thesis by (simp add: unpack_files_lookup[OF dfi])
  next
    case False
    then have "?cs = [rest]" by (rule split_no_sep_id)
    then show ?thesis by (simp add: unpack_files_lookup[OF dfi])
  qed
  show ?case
    unfolding folds files nlookup_no_files[of fo fi ?cs] by (simp split: option.splits)
next
  case (2 d p)
  have "nlookup (Nest [] []) cs = None" for cs
    using nlookup_empty[of cs] by (simp add: empty_nest_def)
  then show ?case by simp
next
  case (3 k v kvs d p)
  let ?cs = "split CHR ''/'' rest"
  let ?d' = "unpack v d (p @ k @ ''/'')"
  from 3(3,4,5) have wv: "wf_nest v" and wk: "wf_folds kvs" "distinct (map fst kvs)"
    "\<forall>k \<in> fst ` set kvs. CHR ''/'' \<notin> set k" and ks: "CHR ''/'' \<notin> set k"
    and nk: "map_of kvs k = None"
    by (auto simp: map_of_eq_None_iff)
  have step: "map_of (unpack_folds ((k, v) # kvs) d p) (p @ rest) =
      (case nlookup (Nest kvs []) ?cs of
         Some w \<Rightarrow> Some w
       | None \<Rightarrow> map_of ?d' (p @ rest))"
    using 3(2)[OF wk] by simp
  show ?case
  proof (cases "\<exists>y zs. ?cs = k # y # zs")
    case True
    then obtain y zs where cs: "?cs = k # y # zs" by blast
    let ?rest' = "join ''/'' (y # zs)"
    from split_two_prefix[OF cs] have r: "rest = k @ CHR ''/'' # ?rest'"
      and s': "split CHR ''/'' ?rest' = y # zs" by auto
    have eq: "p @ rest = (p @ k @ ''/'') @ ?rest'" using r by simp
    have "map_of ?d' ((p @ k @ ''/'') @ ?rest') =
        (case nlookup v (y # zs) of
           Some w \<Rightarrow> Some w
         | None \<Rightarrow> map_of d ((p @ k @ ''/'') @ ?rest'))"
      using 3(1)[OF wv, of ?rest'] by (simp only: s')
    then have "map_of ?d' (p @ rest) =
        (case nlookup v (y # zs) of Some w \<Rightarrow> Some w | None \<Rightarrow> map_of d (p @ rest))"
      by (simp only: eq)
    moreover have "nlookup (Nest kvs []) ?cs = None" using cs nk by simp
    ultimately show ?thesis unfolding step by (simp add: nlookup_folds_Cons cs)
  next
    case False
    then have "\<not> prefix (k @ ''/'') rest"
      using prefix_sep_split[OF ks, of rest] by auto
    then have "\<not> prefix (p @ k @ ''/'') (p @ rest)" by simp
    then have "map_of ?d' (p @ rest) = map_of d (p @ rest)" by (rule unpack_frame)
    moreover have "nlookup (Nest ((k, v) # kvs) []) ?cs = nlookup (Nest kvs []) ?cs"
      using False by (auto simp: nlookup_folds_Cons split: list.splits)
    ultimately show ?thesis unfolding step by (simp split: option.splits)
  qed
qed

lemma unpack_files_distinct:
  "distinct (map fst d) \<Longrightarrow> distinct (map fst (unpack_files fi d p))"
  by (induction fi d p rule: unpack_files.induct) (auto simp: distinct_update)

lemma unpack_distinct:
  "distinct (map fst d) \<Longrightarrow> distinct (map fst (unpack n d p))"
  "distinct (map fst d) \<Longrightarrow> distinct (map fst (unpack_folds fo d p))"
  by (induction n d p and fo d p rule: unpack_unpack_folds.induct)
    (auto simp: unpack_files_distinct)

lemma merge_chain_get_branch:
  "chain \<noteq> [] \<Longrightarrow> \<exists>t. merge_chain tree chain new = Inr t \<and> get_branch_chain t chain = Inr new"
proof (induction tree chain new rule: merge_chain.induct)
  case (1 fo fi new)
  then show ?case by simp
next
  case (2 fo fi k new)
  then show ?case by (simp add: update_conv')
next
  case (3 fo fi k k' ks new)
  obtain child where c: "map_of (ensure_fold k fo) k = Some child"
    using map_of_ensure_fold by blast
  from 3(1)[OF refl c] obtain t where
    t: "merge_chain child (k' # ks) new = Inr t" "get_branch_chain t (k' # ks) = Inr new" by auto
  show ?case using c t by (simp add: update_conv')
qed

text \<open>
  The round trip into an empty dict. For every tree, every path and every flat dict
  \<open>snapshot\<close> (its keys distinct, as those of a dict are): \<^verbatim>\<open>pack\<close> returns a node,
  \<^verbatim>\<open>merge\<close> of that node into the tree at the path succeeds, \<^verbatim>\<open>get_branch\<close> at the path
  reads the node back, and \<^verbatim>\<open>unpack\<close> of it into an empty dict is a dict equal to
  \<open>snapshot\<close>: the same keys with the same values.
\<close>

lemma round_trip_onto_empty_dict:
  "distinct (map fst snapshot) \<Longrightarrow>
     \<exists>node tree'. pack snapshot = Inr node \<and> merge tree p node = Inr tree' \<and>
        get_branch tree' p = Inr node \<and>
        map_of (unpack node [] []) = map_of snapshot \<and>
        distinct (map fst (unpack node [] []))"
proof -
  assume d: "distinct (map fst snapshot)"
  from pack_items_ok[OF d, of empty_nest] obtain node where
    node: "pack_items empty_nest snapshot = Inr node"
    and l0: "\<forall>key. nlookup node (split CHR ''/'' key) =
        (case map_of snapshot key of
           Some v \<Rightarrow> Some v
         | None \<Rightarrow> nlookup empty_nest (split CHR ''/'' key))"
    and w0: "wf_nest empty_nest \<longrightarrow> wf_nest node"
    by blast
  have l: "nlookup node (split CHR ''/'' key) = map_of snapshot key" for key
    using l0 by (cases "map_of snapshot key") simp_all
  have w: "wf_nest node" using w0 by simp
  from merge_chain_get_branch[of "split CHR ''/'' p" tree node] obtain tree' where
    t: "merge tree p node = Inr tree'" "get_branch tree' p = Inr node"
    by (auto simp: merge_def get_branch_def)
  have "map_of (unpack node [] []) key = map_of snapshot key" for key
    using unpack_lookup(1)[OF w, of "[]" "[]" key] l[of key] by (simp split: option.splits)
  then have "map_of (unpack node [] []) = map_of snapshot" by (rule ext)
  moreover have "distinct (map fst (unpack node [] []))" by (simp add: unpack_distinct)
  ultimately show ?thesis using node t by (simp add: pack_def)
qed

text \<open>
  When the dict that \<^verbatim>\<open>unpack\<close> starts from is not empty (the default dict after an
  earlier call that left \<^verbatim>\<open>d\<close> out), its entries stay in the result beside those of the
  node.
\<close>

lemma unpack_onto_dict:
  assumes "distinct (map fst snapshot)" and "pack snapshot = Inr node"
  shows "map_of (unpack node d0 []) key =
     (case map_of snapshot key of Some v \<Rightarrow> Some v | None \<Rightarrow> map_of d0 key)"
proof -
  from pack_items_ok[OF assms(1), of empty_nest] assms(2)
  have l0: "nlookup node (split CHR ''/'' key) =
        (case map_of snapshot key of
           Some v \<Rightarrow> Some v
         | None \<Rightarrow> nlookup empty_nest (split CHR ''/'' key))"
    and w: "wf_nest node"
    by (auto simp: pack_def)
  have "nlookup node (split CHR ''/'' key) = map_of snapshot key"
    using l0 by (cases "map_of snapshot key") simp_all
  then show ?thesis
    using unpack_lookup(1)[OF w, of d0 "[]" key] by (simp split: option.splits)
qed

text \<open>
  Claim C8. The claim has the flattening of the branch read back at the path give
  exactly the snapshot that was packed and merged there. Into an empty dict it does
  (\<open>round_trip_onto_empty_dict\<close>). But the main loop flattens with
  \<^verbatim>\<open>unpack(get_branch(master, f.path))\<close>, which leaves \<^verbatim>\<open>d\<close> out and so runs on the default
  dict of \<^verbatim>\<open>unpack\<close>, one object for the whole run. In a run over the folders \<^verbatim>\<open>x\<close> and
  \<^verbatim>\<open>y\<close>, with the snapshot \<^verbatim>\<open>b: (3, 4)\<close> packed and merged at \<^verbatim>\<open>y\<close> beside the branch of
  \<^verbatim>\<open>x\<close> that holds \<^verbatim>\<open>a: (1, 2)\<close>, the call for \<^verbatim>\<open>x\<close> leaves \<^verbatim>\<open>a\<close> in the default dict, and
  the call for \<^verbatim>\<open>y\<close> returns \<^verbatim>\<open>a\<close> and \<^verbatim>\<open>b\<close>: not the snapshot, which has no \<^verbatim>\<open>a\<close>.
\<close>

theorem C8_second_unpack_keeps_earlier_entries:
  "pack [(''b'', \<lparr>bytesize = 3, datetime = 4\<rparr>)] = Inr (Nest [] [(''b'', \<lparr>bytesize = 3, datetime = 4\<rparr>)]) \<and>
   merge (Nest [(''x'', Nest [] [(''a'', \<lparr>bytesize = 1, datetime = 2\<rparr>)])] []) ''y''
       (Nest [] [(''b'', \<lparr>bytesize = 3, datetime = 4\<rparr>)])
     = Inr (Nest [(''x'', Nest [] [(''a'', \<lparr>bytesize = 1, datetime = 2\<rparr>)]),
                  (''y'', Nest [] [(''b'', \<lparr>bytesize = 3, datetime = 4\<rparr>)])] []) \<and>
   get_branch (Nest [(''x'', Nest [] [(''a'', \<lparr>bytesize = 1, datetime = 2\<rparr>)]),
                     (''y'', Nest [] [(''b'', \<lparr>bytesize = 3, datetime = 4\<rparr>)])] []) ''x''
     = Inr (Nest [] [(''a'', \<lparr>bytesize = 1, datetime = 2\<rparr>)]) \<and>
   unpack_default (Nest [] [(''a'', \<lparr>bytesize = 1, datetime = 2\<rparr>)]) []
     = ([(''a'', \<lparr>bytesize = 1, datetime = 2\<rparr>)], [(''a'', \<lparr>bytesize = 1, datetime = 2\<rparr>)]) \<and>
   get_branch (Nest [(''x'', Nest [] [(''a'', \<lparr>bytesize = 1, datetime = 2\<rparr>)]),
                     (''y'', Nest [] [(''b'', \<lparr>bytesize = 3, datetime = 4\<rparr>)])] []) ''y''
     = Inr (Nest [] [(''b'', \<lparr>bytesize = 3, datetime = 4\<rparr>)]) \<and>
   fst (unpack_default (Nest [] [(''b'', \<lparr>bytesize = 3, datetime = 4\<rparr>)])
          [(''a'', \<lparr>bytesize = 1, datetime = 2\<rparr>)])
     = [(''a'', \<lparr>bytesize = 1, datetime = 2\<rparr>), (''b'', \<lparr>bytesize = 3, datetime = 4\<rparr>)] \<and>
   map_of (fst (unpack_default (Nest [] [(''b'', \<lparr>bytesize = 3, datetime = 4\<rparr>)])
          [(''a'', \<lparr>bytesize = 1, datetime = 2\<rparr>)])) ''a'' = Some \<lparr>bytesize = 1, datetime = 2\<rparr> \<and>
   map_of [(''b'', \<lparr>bytesize = 3, datetime = 4\<rparr>)] ''a'' = None"
  by (simp add: pack_def merge_def get_branch_def empty_nest_def ensure_fold_def
      unpack_default_def)

end
